theory Spec2Isabelle
  imports Complex_Main
begin

section \<open>Integer arrays\<close>

text \<open>
  The routines of \<^verbatim>\<open>RMS/Routines/Image.py\<close> work on two-dimensional numpy arrays.
  An integer array is a storage type together with its rows of samples; a sample is an
  \<open>int\<close> inside the range of the storage type, and a cast wraps around as numpy's
  (C's) integer cast does. A numpy array is rectangular; an array with no rows is
  represented by the empty list and its column count reads as 0.
\<close>

datatype error = IndexError | ValueError | ZeroDivisionError | TypeError

datatype dtype = UInt8 | UInt16 | UInt32 | Int8 | Int16 | Int32 | Int64

type_synonym 'a grid = "'a list list"

record ndarray =
  dtype :: dtype
  samples :: "int grid"

fun bits :: "dtype \<Rightarrow> nat" where
  "bits UInt8 = 8"
| "bits UInt16 = 16"
| "bits UInt32 = 32"
| "bits Int8 = 8"
| "bits Int16 = 16"
| "bits Int32 = 32"
| "bits Int64 = 64"

fun is_signed :: "dtype \<Rightarrow> bool" where
  "is_signed UInt8 = False"
| "is_signed UInt16 = False"
| "is_signed UInt32 = False"
| "is_signed Int8 = True"
| "is_signed Int16 = True"
| "is_signed Int32 = True"
| "is_signed Int64 = True"

text \<open>\<^verbatim>\<open>np.iinfo(dt).min\<close> and \<^verbatim>\<open>np.iinfo(dt).max\<close>.\<close>

definition iinfo_min :: "dtype \<Rightarrow> int" where
  "iinfo_min dt = (if is_signed dt then - (2 ^ (bits dt - 1)) else 0)"

definition iinfo_max :: "dtype \<Rightarrow> int" where
  "iinfo_max dt = (if is_signed dt then 2 ^ (bits dt - 1) - 1 else 2 ^ bits dt - 1)"

text \<open>The integer cast to a storage type keeps the low bits (two's complement).\<close>

definition wrap :: "dtype \<Rightarrow> int \<Rightarrow> int" where
  "wrap dt v =
     (if is_signed dt then (v + 2 ^ (bits dt - 1)) mod 2 ^ bits dt - 2 ^ (bits dt - 1)
      else v mod 2 ^ bits dt)"

definition in_range :: "dtype \<Rightarrow> int \<Rightarrow> bool" where
  "in_range dt v = (iinfo_min dt \<le> v \<and> v \<le> iinfo_max dt)"

definition astype :: "dtype \<Rightarrow> ndarray \<Rightarrow> ndarray" where
  "astype dt a = \<lparr>dtype = dt, samples = map (map (wrap dt)) (samples a)\<rparr>"

text \<open>
  numpy's promotion of two integer storage types (\<^verbatim>\<open>np.result_type\<close>): the wider of two
  types of one signedness; for an unsigned and a signed type, the signed one when it is
  strictly wider, otherwise the signed type of twice the unsigned width. (\<^verbatim>\<open>uint64\<close>,
  which numpy promotes to a float with a signed type, is not among the storage types
  modelled.)
\<close>

fun signed_of_bits :: "nat \<Rightarrow> dtype" where
  "signed_of_bits n = (if n \<le> 8 then Int8 else if n \<le> 16 then Int16
                       else if n \<le> 32 then Int32 else Int64)"

definition result_type :: "dtype \<Rightarrow> dtype \<Rightarrow> dtype" where
  "result_type a b =
     (if is_signed a = is_signed b then (if bits a \<ge> bits b then a else b)
      else if is_signed a then (if bits b < bits a then a else signed_of_bits (2 * bits b))
      else (if bits a < bits b then b else signed_of_bits (2 * bits a)))"

definition shape :: "'a grid \<Rightarrow> nat \<times> nat" where
  "shape g = (length g, case g of [] \<Rightarrow> 0 | r # _ \<Rightarrow> length r)"

definition rectangular :: "'a grid \<Rightarrow> bool" where
  "rectangular g = list_all (\<lambda>r. length r = snd (shape g)) g"

definition well_typed :: "ndarray \<Rightarrow> bool" where
  "well_typed a = (rectangular (samples a) \<and> list_all (list_all (in_range (dtype a))) (samples a))"

subsection \<open>Broadcasting and elementwise arithmetic\<close>

text \<open>
  A binary operation of two arrays broadcasts them to a common shape: along each axis the
  lengths agree or one of them is 1, and the array of length 1 is repeated. Otherwise numpy
  raises \<^verbatim>\<open>ValueError\<close>.
\<close>

definition bdim :: "nat \<Rightarrow> nat \<Rightarrow> nat option" where
  "bdim m n = (if m = n then Some m else if m = 1 then Some n else if n = 1 then Some m else None)"

definition stretch :: "nat \<Rightarrow> 'a list \<Rightarrow> 'a list" where
  "stretch n xs = (if length xs = n then xs else concat (replicate n xs))"

definition broadcast_to :: "nat \<Rightarrow> nat \<Rightarrow> 'a grid \<Rightarrow> 'a grid" where
  "broadcast_to m n g = stretch m (map (stretch n) g)"

definition elementwise :: "('a \<Rightarrow> 'b \<Rightarrow> 'c) \<Rightarrow> 'a grid \<Rightarrow> 'b grid \<Rightarrow> error + 'c grid" where
  "elementwise f g h =
     (case (bdim (fst (shape g)) (fst (shape h)), bdim (snd (shape g)) (snd (shape h))) of
        (Some m, Some n) \<Rightarrow> Inr (map2 (map2 f) (broadcast_to m n g) (broadcast_to m n h))
      | _ \<Rightarrow> Inl ValueError)"

text \<open>\<^verbatim>\<open>a - b\<close> on integer arrays: computed in the promoted type, where it wraps.\<close>

definition subtract :: "ndarray \<Rightarrow> ndarray \<Rightarrow> error + ndarray" where
  "subtract a b =
     (let dt = result_type (dtype a) (dtype b) in
      case elementwise (\<lambda>x y. wrap dt (x - y)) (samples a) (samples b) of
        Inl e \<Rightarrow> Inl e
      | Inr g \<Rightarrow> Inr \<lparr>dtype = dt, samples = g\<rparr>)"

subsection \<open>Row slices\<close>

text \<open>
  The row indices a slice \<^verbatim>\<open>start:stop:step\<close> selects (bounds already resolved against
  the number of rows, \<open>step > 0\<close>): \<open>start, start + step, \<dots>\<close> below \<open>stop\<close>.
\<close>

definition srange :: "nat \<Rightarrow> nat \<Rightarrow> nat \<Rightarrow> nat list" where
  "srange start stop step =
     map (\<lambda>k. start + k * step) [0..<(stop - start + (step - 1)) div step]"

text \<open>Reading the rows of a slice, and assigning rows to the rows of a slice.\<close>

definition get_rows :: "nat list \<Rightarrow> 'a list \<Rightarrow> 'a list" where
  "get_rows is xs = map (\<lambda>i. xs ! i) is"

definition set_rows :: "nat list \<Rightarrow> 'a list \<Rightarrow> 'a list \<Rightarrow> 'a list" where
  "set_rows is vs xs = fold (\<lambda>(i, v) acc. acc[i := v]) (zip is vs) xs"

section \<open>Deinterlacing\<close>

text \<open>
  \<^verbatim>\<open>deinterlaceOdd\<close>: on a copy, rows \<^verbatim>\<open>1::2\<close> take rows \<^verbatim>\<open>:-1:2\<close>, then rows \<^verbatim>\<open>:-1\<close> take
  rows \<^verbatim>\<open>1:\<close>, then row \<^verbatim>\<open>-1\<close> is set to 0. The right-hand side of each slice assignment is
  read before the left-hand side is written. Row \<^verbatim>\<open>-1\<close> of an array with no rows is out of
  bounds: \<^verbatim>\<open>IndexError\<close>.
\<close>

definition deinterlaceOdd :: "ndarray \<Rightarrow> error + ndarray" where
  "deinterlaceOdd img =
     (let n = length (samples img);
          d1 = set_rows (srange 1 n 2) (get_rows (srange 0 (n - 1) 2) (samples img)) (samples img);
          d2 = set_rows (srange 0 (n - 1) 1) (get_rows (srange 1 n 1) d1) d1
      in if n = 0 then Inl IndexError
         else Inr (img\<lparr>samples := d2[n - 1 := map (\<lambda>_. 0) (d2 ! (n - 1))]\<rparr>))"

text \<open>\<^verbatim>\<open>deinterlaceEven\<close>: on a copy, rows \<^verbatim>\<open>:-1:2\<close> take rows \<^verbatim>\<open>1::2\<close>.\<close>

definition deinterlaceEven :: "ndarray \<Rightarrow> ndarray" where
  "deinterlaceEven img =
     (let n = length (samples img)
      in img\<lparr>samples := set_rows (srange 0 (n - 1) 2) (get_rows (srange 1 n 2) (samples img))
                            (samples img)\<rparr>)"

text \<open>
  \<^verbatim>\<open>blendLighten\<close>: the first array is cast to \<^verbatim>\<open>int16\<close>; \<^verbatim>\<open>temp\<close> is the difference with the
  second array, with its positive entries set to 0; the result is the first array minus
  \<^verbatim>\<open>temp\<close>, cast to \<^verbatim>\<open>uint8\<close>.
\<close>

definition blendLighten :: "ndarray \<Rightarrow> ndarray \<Rightarrow> error + ndarray" where
  "blendLighten arr1 arr2 =
     (let a1 = astype Int16 arr1 in
      case subtract a1 arr2 of
        Inl e \<Rightarrow> Inl e
      | Inr temp \<Rightarrow>
          (let temp' = temp\<lparr>samples := map (map (\<lambda>t. if t > 0 then 0 else t)) (samples temp)\<rparr> in
           case subtract a1 temp' of
             Inl e \<Rightarrow> Inl e
           | Inr new_arr \<Rightarrow> Inr (astype UInt8 new_arr)))"

definition deinterlaceBlend :: "ndarray \<Rightarrow> error + ndarray" where
  "deinterlaceBlend img =
     (case deinterlaceOdd img of
        Inl e \<Rightarrow> Inl e
      | Inr img_odd_d \<Rightarrow> blendLighten img_odd_d (deinterlaceEven img))"

text \<open>
  The reconstruction of the odd field in the words of the specification: every odd row is
  replaced by the row before it, then the frame moves up by one row and the last row is
  filled with zeros.
\<close>

definition odd_rows_duplicated :: "'a grid \<Rightarrow> 'a grid" where
  "odd_rows_duplicated g = map (\<lambda>r. if odd r then g ! (r - 1) else g ! r) [0..<length g]"

definition shifted_up :: "int grid \<Rightarrow> int grid" where
  "shifted_up g =
     map (\<lambda>r. if r + 1 < length g then g ! (r + 1) else replicate (length (g ! r)) 0) [0..<length g]"

subsection \<open>Auxiliary definitions for the deinterlacing proofs\<close>

text \<open>
  The samples \<^verbatim>\<open>blendLighten\<close> computes for two arrays of one shape, as a single
  expression: cast to \<^verbatim>\<open>int16\<close>, the two subtractions in \<^verbatim>\<open>int16\<close>, cast to \<^verbatim>\<open>uint8\<close>.
\<close>

definition lighten_grid :: "int grid \<Rightarrow> int grid \<Rightarrow> int grid" where
  "lighten_grid g h =
     map (map (wrap UInt8))
       (map2 (map2 (\<lambda>x t. wrap Int16 (x - t))) (map (map (wrap Int16)) g)
          (map (map (\<lambda>t. if t > 0 then 0 else t))
             (map2 (map2 (\<lambda>x y. wrap Int16 (x - y))) (map (map (wrap Int16)) g) h)))"

text \<open>Example arrays: an 8-bit frame of three rows, two 16-bit arrays and two 8-bit tiles.\<close>

definition frame3 :: ndarray where
  "frame3 = \<lparr>dtype = UInt8, samples = [[10, 200], [30, 40], [50, 60]]\<rparr>"

definition wide_a :: ndarray where
  "wide_a = \<lparr>dtype = UInt16, samples = [[300]]\<rparr>"

definition wide_b :: ndarray where
  "wide_b = \<lparr>dtype = UInt16, samples = [[5]]\<rparr>"

definition tile_a :: ndarray where
  "tile_a = \<lparr>dtype = UInt8, samples = [[0, 255], [7, 9]]\<rparr>"

definition tile_b :: ndarray where
  "tile_b = \<lparr>dtype = UInt8, samples = [[255, 0], [8, 9]]\<rparr>"

section \<open>Floating-point arrays\<close>

text \<open>
  A \<^verbatim>\<open>float64\<close> value is a finite number, an infinity or NaN. Arithmetic on finite values is
  exact real arithmetic: rounding, overflow to an infinity and the sign of zero are not
  modelled (every zero divides as \<^verbatim>\<open>+0.0\<close>). On the integer samples of an image of at most
  32 bits the conversions, sums, products and comparisons below are exact in \<^verbatim>\<open>float64\<close> too.
  The special values follow IEEE 754, as numpy computes them (with a warning, no exception).
\<close>

datatype f64 = Fin real | PInf | NInf | NaN

fun fneg :: "f64 \<Rightarrow> f64" where
  "fneg (Fin a) = Fin (- a)"
| "fneg PInf = NInf"
| "fneg NInf = PInf"
| "fneg NaN = NaN"

fun fadd :: "f64 \<Rightarrow> f64 \<Rightarrow> f64" where
  "fadd (Fin a) (Fin b) = Fin (a + b)"
| "fadd NaN _ = NaN"
| "fadd _ NaN = NaN"
| "fadd PInf NInf = NaN"
| "fadd NInf PInf = NaN"
| "fadd PInf _ = PInf"
| "fadd NInf _ = NInf"
| "fadd _ PInf = PInf"
| "fadd _ NInf = NInf"

definition fsub :: "f64 \<Rightarrow> f64 \<Rightarrow> f64" where
  "fsub a b = fadd a (fneg b)"

text \<open>The infinity of the sign of a nonzero finite factor.\<close>

definition inf_of_sign :: "real \<Rightarrow> f64" where
  "inf_of_sign s = (if s > 0 then PInf else NInf)"

fun fmul :: "f64 \<Rightarrow> f64 \<Rightarrow> f64" where
  "fmul (Fin a) (Fin b) = Fin (a * b)"
| "fmul NaN _ = NaN"
| "fmul _ NaN = NaN"
| "fmul (Fin a) PInf = (if a = 0 then NaN else inf_of_sign a)"
| "fmul (Fin a) NInf = (if a = 0 then NaN else inf_of_sign (- a))"
| "fmul PInf (Fin b) = (if b = 0 then NaN else inf_of_sign b)"
| "fmul NInf (Fin b) = (if b = 0 then NaN else inf_of_sign (- b))"
| "fmul PInf PInf = PInf"
| "fmul PInf NInf = NInf"
| "fmul NInf PInf = NInf"
| "fmul NInf NInf = PInf"

fun fdiv :: "f64 \<Rightarrow> f64 \<Rightarrow> f64" where
  "fdiv (Fin a) (Fin b) =
     (if b \<noteq> 0 then Fin (a / b) else if a = 0 then NaN else inf_of_sign a)"
| "fdiv NaN _ = NaN"
| "fdiv _ NaN = NaN"
| "fdiv (Fin a) PInf = Fin 0"
| "fdiv (Fin a) NInf = Fin 0"
| "fdiv PInf (Fin b) = (if b \<ge> 0 then PInf else NInf)"
| "fdiv NInf (Fin b) = (if b \<ge> 0 then NInf else PInf)"
| "fdiv PInf PInf = NaN"
| "fdiv PInf NInf = NaN"
| "fdiv NInf PInf = NaN"
| "fdiv NInf NInf = NaN"

text \<open>\<^verbatim>\<open>a < b\<close>: false when either side is NaN.\<close>

fun flt :: "f64 \<Rightarrow> f64 \<Rightarrow> bool" where
  "flt (Fin a) (Fin b) = (a < b)"
| "flt NaN _ = False"
| "flt _ NaN = False"
| "flt NInf NInf = False"
| "flt NInf _ = True"
| "flt _ NInf = False"
| "flt PInf _ = False"
| "flt _ PInf = True"



text \<open>\<^verbatim>\<open>np.clip(x, lo, hi)\<close> is \<^verbatim>\<open>minimum(maximum(x, lo), hi)\<close>; NaN stays NaN.\<close>

fun clip :: "f64 \<Rightarrow> real \<Rightarrow> real \<Rightarrow> f64" where
  "clip (Fin r) lo hi = Fin (min (max r lo) hi)"
| "clip PInf lo hi = Fin hi"
| "clip NInf lo hi = Fin (min lo hi)"
| "clip NaN lo hi = NaN"

text \<open>
  The cast of a float to an integer storage type truncates towards zero and keeps the low
  bits of the result. C leaves the conversion of NaN, of an infinity and of a value beyond
  the machine integer undefined; for NaN and the infinities the model returns what numpy
  produces on x86-64 (the "integer indefinite" value: the minimum of a signed type of 32
  bits or more, 0 for the other types).
\<close>

definition trunc :: "real \<Rightarrow> int" where
  "trunc r = (if r \<ge> 0 then \<lfloor>r\<rfloor> else \<lceil>r\<rceil>)"

definition indefinite :: "dtype \<Rightarrow> int" where
  "indefinite dt = (if is_signed dt \<and> bits dt \<ge> 32 then iinfo_min dt else 0)"

fun to_int :: "dtype \<Rightarrow> f64 \<Rightarrow> int" where
  "to_int dt (Fin r) = wrap dt (trunc r)"
| "to_int dt PInf = indefinite dt"
| "to_int dt NInf = indefinite dt"
| "to_int dt NaN = indefinite dt"

text \<open>\<^verbatim>\<open>a.astype(np.float64)\<close> on an integer array.\<close>

definition to_float :: "int grid \<Rightarrow> f64 grid" where
  "to_float g = map (map (\<lambda>v. Fin (of_int v))) g"


section \<open>Gamma correction\<close>


section \<open>Brightness and contrast\<close>

text \<open>
  \<^verbatim>\<open>applyBrightnessAndContrast\<close>. The contrast factor divides by \<^verbatim>\<open>255*(259 - contrast)\<close>, a
  Python float: \<^verbatim>\<open>ZeroDivisionError\<close> at the contrast 259. The array named
  \<^verbatim>\<open>img\<close> after \<^verbatim>\<open>np.clip\<close> is \<open>brightness_contrast_clipped\<close>; the result is its cast to
  the storage type of the input.
\<close>

definition contrast_factor :: "real \<Rightarrow> real" where
  "contrast_factor contrast = (259 * (contrast + 255)) / (255 * (259 - contrast))"

definition brightness_contrast_clipped :: "ndarray \<Rightarrow> real \<Rightarrow> real \<Rightarrow> f64 grid" where
  "brightness_contrast_clipped img brightness contrast =
     (let f = contrast_factor contrast;
          img1 = to_float (samples img);
          img2 = map (map (\<lambda>x. fadd x (Fin brightness))) img1;
          img3 = map (map (\<lambda>x. fadd (fmul (Fin f) (fsub x (Fin 128))) (Fin 128))) img2
      in map (map (\<lambda>x. clip x 0 255)) img3)"

definition applyBrightnessAndContrast :: "ndarray \<Rightarrow> real \<Rightarrow> real \<Rightarrow> error + ndarray" where
  "applyBrightnessAndContrast img brightness contrast =
     (if 255 * (259 - contrast) = 0 then Inl ZeroDivisionError
      else
        (let img_type = dtype img in
         Inr \<lparr>dtype = img_type,
              samples = map (map (to_int img_type))
                          (brightness_contrast_clipped img brightness contrast)\<rparr>))"

section \<open>Levels\<close>




section \<open>Flat field\<close>

record FlatStruct =
  flat_img :: "f64 grid"
  flat_avg :: f64

text \<open>
  \<^verbatim>\<open>np.median\<close> of the flattened array: the middle element of the sorted values, or the mean
  of the two middle elements; NaN for an empty array.
\<close>

definition median :: "real list \<Rightarrow> f64" where
  "median xs =
     (let n = length xs; s = sort xs in
      if n = 0 then NaN
      else if odd n then Fin (s ! (n div 2))
      else Fin ((s ! (n div 2 - 1) + s ! (n div 2)) / 2))"

text \<open>
  \<^verbatim>\<open>loadFlat\<close>. The argument is the integer array that \<^verbatim>\<open>scipy.misc.imread\<close> returns for the
  flat file; reading the file is outside the model.
\<close>

definition loadFlat :: "ndarray \<Rightarrow> FlatStruct" where
  "loadFlat decoded =
     (let img = map (map real_of_int) (samples decoded);
          avg = median (concat img);
          img' = map (map (\<lambda>x. if flt (Fin x) (fdiv avg (Fin 2)) then avg else Fin x)) img
      in \<lparr>flat_img = img', flat_avg = avg\<rparr>)"

text \<open>
  \<^verbatim>\<open>applyFlat\<close>. The array named \<^verbatim>\<open>img\<close> after \<^verbatim>\<open>np.clip\<close> is \<open>flat_clipped\<close>, computed
  when the two shapes agree; the result is its cast to the storage type of the input.
\<close>

definition flat_clipped :: "ndarray \<Rightarrow> FlatStruct \<Rightarrow> f64 grid" where
  "flat_clipped img flat_struct =
     (let input_type = dtype img;
          img1 = map2 (map2 (\<lambda>x d. fdiv (fmul (flat_avg flat_struct) x) d))
                   (to_float (samples img)) (flat_img flat_struct)
      in map (map (\<lambda>x. clip x (of_int (iinfo_min input_type)) (of_int (iinfo_max input_type)))) img1)"

definition applyFlat :: "ndarray \<Rightarrow> FlatStruct \<Rightarrow> ndarray" where
  "applyFlat img flat_struct =
     (if shape (samples img) \<noteq> shape (flat_img flat_struct) then img
      else
        (let input_type = dtype img in
         \<lparr>dtype = input_type,
          samples = map (map (to_int input_type)) (flat_clipped img flat_struct)\<rparr>))"

text \<open>The invariant of a flat field: no element of \<open>flat_img\<close> is below \<open>flat_avg / 2\<close>.\<close>

definition flat_invariant :: "FlatStruct \<Rightarrow> bool" where
  "flat_invariant fs =
     list_all (list_all (\<lambda>x. \<not> flt x (fdiv (flat_avg fs) (Fin 2)))) (flat_img fs)"


subsection \<open>Example images and flat fields\<close>

definition deep_frame :: ndarray where
  "deep_frame = \<lparr>dtype = UInt16, samples = [[1000, 100]]\<rparr>"




definition half_flat :: FlatStruct where
  "half_flat = \<lparr>flat_img = [[Fin 50]], flat_avg = Fin 100\<rparr>"

definition flat_frame :: ndarray where
  "flat_frame = \<lparr>dtype = UInt8, samples =
     [[100, 100, 100, 100], [100, 10, 100, 100], [100, 100, 100, 100], [100, 100, 100, 100]]\<rparr>"



definition two_pixels :: ndarray where
  "two_pixels = \<lparr>dtype = UInt8, samples = [[1, 2]]\<rparr>"

section \<open>Properties of the deinterlacer\<close>

subsection \<open>Slice assignment\<close>

lemma set_rows_Nil [simp]: "set_rows [] vs xs = xs" "set_rows is [] xs = xs"
  by (simp_all add: set_rows_def)

lemma set_rows_Cons [simp]: "set_rows (i # is) (v # vs) xs = set_rows is vs (xs[i := v])"
  by (simp add: set_rows_def)

lemma length_set_rows [simp]: "length (set_rows is vs xs) = length xs"
proof (induction "is" arbitrary: vs xs)
  case Nil
  then show ?case by simp
next
  case (Cons i "is")
  then show ?case by (cases vs) auto
qed

lemma set_rows_other: "r \<notin> set is \<Longrightarrow> set_rows is vs xs ! r = xs ! r"
proof (induction "is" arbitrary: vs xs)
  case Nil
  then show ?case by simp
next
  case (Cons i "is")
  then show ?case by (cases vs) auto
qed

lemma set_rows_hit:
  "distinct is \<Longrightarrow> k < length is \<Longrightarrow> k < length vs \<Longrightarrow> is ! k < length xs
   \<Longrightarrow> set_rows is vs xs ! (is ! k) = vs ! k"
proof (induction "is" arbitrary: vs xs k)
  case Nil
  then show ?case by simp
next
  case (Cons i "is")
  then obtain v vs' where vs: "vs = v # vs'" by (cases vs) auto
  show ?case
  proof (cases k)
    case 0
    with Cons.prems vs show ?thesis by (simp add: set_rows_other)
  next
    case (Suc j)
    with Cons.prems vs Cons.IH[of j vs' "xs[i := v]"] show ?thesis by simp
  qed
qed

lemma srange_odd: "srange 1 n 2 = map (\<lambda>k. 2 * k + 1) [0..<n div 2]"
  by (cases n) (auto simp: srange_def)

lemma srange_even: "srange 0 (n - 1) 2 = map (\<lambda>k. 2 * k) [0..<n div 2]"
  by (cases n) (auto simp: srange_def)

lemma srange_front: "srange 0 (n - 1) 1 = [0..<n - 1]"
  by (simp add: srange_def map_idI)

lemma srange_tail: "srange 1 n 1 = map Suc [0..<n - 1]"
  by (simp add: srange_def)

lemma get_rows_map: "get_rows (map f ks) xs = map (\<lambda>k. xs ! f k) ks"
  by (simp add: get_rows_def)

lemma even_rows_nth:
  assumes "r < length g"
  shows "set_rows (srange 0 (length g - 1) 2) (get_rows (srange 1 (length g) 2) g) g ! r
         = (if even r \<and> r + 1 < length g then g ! (r + 1) else g ! r)"
proof (cases "even r \<and> r + 1 < length g")
  case True
  define k where "k = r div 2"
  let ?is = "map (\<lambda>k. 2 * k) [0..<length g div 2]"
  let ?vs = "map (\<lambda>k. g ! (2 * k + 1)) [0..<length g div 2]"
  from True have k: "k < length g div 2" "2 * k = r" by (auto simp: k_def)
  have d: "distinct ?is" by (simp add: distinct_map inj_on_def)
  have "set_rows ?is ?vs g ! (?is ! k) = ?vs ! k"
    using k assms by (intro set_rows_hit[OF d]) auto
  with k True show ?thesis unfolding srange_even srange_odd get_rows_map by simp
next
  case False
  with assms have "r \<notin> set (map (\<lambda>k. 2 * k) [0..<length g div 2])" by auto
  with False show ?thesis unfolding srange_even srange_odd get_rows_map
    by (auto simp add: set_rows_other simp del: set_map)
qed

lemma odd_step_nth:
  assumes "r < length g"
  shows "set_rows (srange 1 (length g) 2) (get_rows (srange 0 (length g - 1) 2) g) g ! r
         = (if odd r then g ! (r - 1) else g ! r)"
proof (cases "odd r")
  case True
  define k where "k = r div 2"
  let ?is = "map (\<lambda>k. 2 * k + 1) [0..<length g div 2]"
  let ?vs = "map (\<lambda>k. g ! (2 * k)) [0..<length g div 2]"
  from True assms have k: "k < length g div 2" "2 * k + 1 = r"
    by (auto simp: k_def elim!: oddE)
  have d: "distinct ?is" by (simp add: distinct_map inj_on_def)
  have "set_rows ?is ?vs g ! (?is ! k) = ?vs ! k"
    using k assms by (intro set_rows_hit[OF d]) auto
  with k True show ?thesis unfolding srange_even srange_odd get_rows_map by auto
next
  case False
  then have "r \<notin> set (map (\<lambda>k. 2 * k + 1) [0..<length g div 2])" by auto
  with False show ?thesis unfolding srange_even srange_odd get_rows_map
    by (auto simp add: set_rows_other simp del: set_map)
qed

lemma shift_step_nth:
  assumes "r < length g"
  shows "set_rows (srange 0 (length g - 1) 1) (get_rows (srange 1 (length g) 1) g) g ! r
         = (if r + 1 < length g then g ! (r + 1) else g ! r)"
proof (cases "r + 1 < length g")
  case True
  have "set_rows [0..<length g - 1] (map (\<lambda>k. g ! Suc k) [0..<length g - 1]) g ! ([0..<length g - 1] ! r)
        = map (\<lambda>k. g ! Suc k) [0..<length g - 1] ! r"
    using True by (intro set_rows_hit) auto
  with True show ?thesis unfolding srange_front srange_tail get_rows_map by simp
next
  case False
  then have "r \<notin> set [0..<length g - 1]" by auto
  with False show ?thesis unfolding srange_front srange_tail get_rows_map
    by (simp add: set_rows_other)
qed

subsection \<open>Casts and the lighten blend of 8-bit samples\<close>

lemma wrap_in_range: "in_range dt v \<Longrightarrow> wrap dt v = v"
  by (cases dt) (auto simp: in_range_def wrap_def iinfo_min_def iinfo_max_def)

lemma in_range_wrap: "in_range dt (wrap dt v)"
  by (cases dt) (auto simp: in_range_def wrap_def iinfo_min_def iinfo_max_def)

lemma in_range_UInt8: "in_range UInt8 v \<longleftrightarrow> 0 \<le> v \<and> v \<le> 255"
  by (auto simp: in_range_def iinfo_min_def iinfo_max_def)

lemma in_range_Int16: "in_range Int16 v \<longleftrightarrow> - 32768 \<le> v \<and> v \<le> 32767"
  by (auto simp: in_range_def iinfo_min_def iinfo_max_def)

text \<open>One sample of the lighten blend of two 8-bit samples.\<close>

lemma lighten_sample:
  assumes "in_range UInt8 x" "in_range UInt8 y"
  shows "wrap UInt8 (wrap Int16 (wrap Int16 x -
           (if wrap Int16 (wrap Int16 x - y) > 0 then 0 else wrap Int16 (wrap Int16 x - y)))) = max x y"
proof -
  from assms have x: "wrap Int16 x = x" by (intro wrap_in_range) (simp add: in_range_UInt8 in_range_Int16)
  from assms have d: "wrap Int16 (x - y) = x - y"
    by (intro wrap_in_range) (simp add: in_range_UInt8 in_range_Int16)
  have m: "x - (if x - y > 0 then 0 else x - y) = max x y" by auto
  from assms have "wrap Int16 (max x y) = max x y"
    by (intro wrap_in_range) (auto simp add: in_range_UInt8 in_range_Int16 max_def)
  moreover from assms have "wrap UInt8 (max x y) = max x y"
    by (intro wrap_in_range) (auto simp add: in_range_UInt8 max_def)
  ultimately show ?thesis by (simp only: x d m)
qed

lemma lighten_row:
  "list_all2 (\<lambda>x y. in_range UInt8 x \<and> in_range UInt8 y) r s \<Longrightarrow>
   map (wrap UInt8)
       (map2 (\<lambda>x t. wrap Int16 (x - t)) (map (wrap Int16) r)
          (map (\<lambda>t. if t > 0 then 0 else t)
             (map2 (\<lambda>x y. wrap Int16 (x - y)) (map (wrap Int16) r) s))) = map2 max r s"
proof (induction rule: list_all2_induct)
  case Nil
  show ?case by simp
next
  case (Cons x r y s)
  from Cons.hyps(1) have "in_range UInt8 x" "in_range UInt8 y" by simp_all
  from lighten_sample[OF this] Cons.IH show ?case by simp
qed

lemma lighten_grid_max:
  "list_all2 (list_all2 (\<lambda>x y. in_range UInt8 x \<and> in_range UInt8 y)) g h \<Longrightarrow>
   lighten_grid g h = map2 (map2 max) g h"
  unfolding lighten_grid_def
proof (induction rule: list_all2_induct)
  case Nil
  show ?case by simp
next
  case (Cons r g s h)
  from lighten_row[OF Cons.hyps(1)] Cons.IH show ?case by simp
qed

subsection \<open>Shapes\<close>

lemma shape_length [simp]: "fst (shape g) = length g"
  by (simp add: shape_def)

lemma shape_cols: "g \<noteq> [] \<Longrightarrow> snd (shape g) = length (g ! 0)"
  by (cases g) (simp_all add: shape_def)

lemma rectangular_nth: "rectangular g \<Longrightarrow> r < length g \<Longrightarrow> length (g ! r) = snd (shape g)"
  by (simp add: rectangular_def list_all_length)

lemma rectangularI:
  assumes "\<forall>r<length g. length (g ! r) = n" "g \<noteq> []"
  shows "rectangular g \<and> shape g = (length g, n)"
proof -
  from assms have "length (g ! 0) = n" by simp
  with assms(2) have "shape g = (length g, n)" by (cases g) (simp_all add: shape_def)
  with assms(1) show ?thesis by (simp add: rectangular_def list_all_length)
qed

lemma broadcast_to_same:
  "rectangular g \<Longrightarrow> broadcast_to (length g) (snd (shape g)) g = g"
  by (simp add: broadcast_to_def stretch_def rectangular_def list_all_iff map_idI)

lemma elementwise_same:
  assumes "rectangular g" "rectangular h" "shape g = shape h"
  shows "elementwise f g h = Inr (map2 (map2 f) g h)"
proof -
  from assms(3) have l: "length h = length g"
    by (metis shape_length)
  from assms broadcast_to_same[of g] broadcast_to_same[of h] l
  show ?thesis by (simp add: elementwise_def bdim_def)
qed

lemma shape_map_map [simp]: "shape (map (map f) g) = shape g"
  by (cases g) (simp_all add: shape_def)

lemma rectangular_map_map [simp]: "rectangular (map (map f) g) = rectangular g"
  by (simp add: rectangular_def list_all_iff)

lemma shape_map2:
  assumes "rectangular g" "rectangular h" "shape g = shape h"
  shows "rectangular (map2 (map2 f) g h) \<and> shape (map2 (map2 f) g h) = shape g"
proof (cases g)
  case Nil
  then show ?thesis by (simp add: rectangular_def shape_def)
next
  case (Cons r g')
  from assms(3) have l: "length h = length g" by (metis shape_length)
  have "rectangular (map2 (map2 f) g h) \<and> shape (map2 (map2 f) g h) = (length (map2 (map2 f) g h), snd (shape g))"
  proof (rule rectangularI)
    show "\<forall>r<length (map2 (map2 f) g h). length (map2 (map2 f) g h ! r) = snd (shape g)"
      using assms l by (simp add: rectangular_nth)
  next
    from Cons l show "map2 (map2 f) g h \<noteq> []" by (cases h) auto
  qed
  with l show ?thesis by (simp add: prod_eq_iff)
qed

lemma grids_all2:
  assumes "rectangular g" "rectangular h" "shape g = shape h"
    and "list_all (list_all P) g" "list_all (list_all Q) h"
  shows "list_all2 (list_all2 (\<lambda>x y. P x \<and> Q y)) g h"
proof -
  from assms(3) have l: "length h = length g" by (metis shape_length)
  have "length (g ! r) = length (h ! r)" if "r < length g" for r
    using that assms(1-3) l by (simp add: rectangular_nth)
  with assms(4,5) l show ?thesis
    by (simp add: list_all2_conv_all_nth list_all_length)
qed

lemma blendLighten_uint8:
  assumes "dtype a = UInt8" "dtype b = UInt8" "well_typed a" "well_typed b"
    and "shape (samples a) = shape (samples b)"
  shows "blendLighten a b = Inr \<lparr>dtype = UInt8, samples = map2 (map2 max) (samples a) (samples b)\<rparr>"
proof -
  let ?g = "samples a" and ?h = "samples b"
  let ?g16 = "map (map (wrap Int16)) ?g"
  let ?t = "map2 (map2 (\<lambda>x y. wrap Int16 (x - y))) ?g16 ?h"
  let ?t' = "map (map (\<lambda>t. if t > 0 then 0 else t)) ?t"
  from assms have rg: "rectangular ?g" and rh: "rectangular ?h" by (simp_all add: well_typed_def)
  have s1: "subtract (astype Int16 a) b = Inr \<lparr>dtype = Int16, samples = ?t\<rparr>"
    using rg rh assms(2,5) by (simp add: subtract_def astype_def result_type_def elementwise_same)
  have st: "rectangular ?t \<and> shape ?t = shape ?g16"
    using rg rh assms(5) by (intro shape_map2) simp_all
  have st': "rectangular ?t' \<and> shape ?t' = shape ?g16"
    using st by (simp only: rectangular_map_map shape_map_map)
  have e2: "elementwise (\<lambda>x t. wrap Int16 (x - t)) ?g16 ?t'
      = Inr (map2 (map2 (\<lambda>x t. wrap Int16 (x - t))) ?g16 ?t')"
    using rg st' by (intro elementwise_same) simp_all
  have s2: "subtract (astype Int16 a) \<lparr>dtype = Int16, samples = ?t'\<rparr>
      = Inr \<lparr>dtype = Int16, samples = map2 (map2 (\<lambda>x t. wrap Int16 (x - t))) ?g16 ?t'\<rparr>"
    unfolding subtract_def Let_def by (simp add: astype_def result_type_def e2 del: map_map)
  have "blendLighten a b = Inr \<lparr>dtype = UInt8, samples = lighten_grid ?g ?h\<rparr>"
    unfolding blendLighten_def Let_def by (simp add: s1 s2 del: map_map) (simp add: astype_def lighten_grid_def del: map_map)
  moreover have "lighten_grid ?g ?h = map2 (map2 max) ?g ?h"
    using assms rg rh by (intro lighten_grid_max grids_all2) (simp_all add: well_typed_def)
  ultimately show ?thesis by simp
qed

subsection \<open>The two fields\<close>

lemma deinterlaceEven_simps [simp]:
  "dtype (deinterlaceEven img) = dtype img"
  "length (samples (deinterlaceEven img)) = length (samples img)"
  by (simp_all add: deinterlaceEven_def Let_def)

lemma deinterlaceEven_nth:
  "r < length (samples img) \<Longrightarrow>
   samples (deinterlaceEven img) ! r =
     (if even r \<and> r + 1 < length (samples img) then samples img ! (r + 1) else samples img ! r)"
  unfolding deinterlaceEven_def Let_def using even_rows_nth[of r "samples img"] by simp

lemma odd_rows_duplicated_eq:
  "set_rows (srange 1 (length g) 2) (get_rows (srange 0 (length g - 1) 2) g) g = odd_rows_duplicated g"
proof (rule nth_equalityI)
  show "length (set_rows (srange 1 (length g) 2) (get_rows (srange 0 (length g - 1) 2) g) g)
        = length (odd_rows_duplicated g)"
    by (simp add: odd_rows_duplicated_def)
next
  fix r
  assume "r < length (set_rows (srange 1 (length g) 2) (get_rows (srange 0 (length g - 1) 2) g) g)"
  then have r: "r < length g" by simp
  from odd_step_nth[OF r] r
  show "set_rows (srange 1 (length g) 2) (get_rows (srange 0 (length g - 1) 2) g) g ! r
        = odd_rows_duplicated g ! r"
    by (simp add: odd_rows_duplicated_def)
qed

lemma shifted_up_eq:
  assumes "g \<noteq> []"
  shows "(set_rows (srange 0 (length g - 1) 1) (get_rows (srange 1 (length g) 1) g) g)
           [length g - 1 := map (\<lambda>_. 0)
              (set_rows (srange 0 (length g - 1) 1) (get_rows (srange 1 (length g) 1) g) g ! (length g - 1))]
         = shifted_up g"
proof (rule nth_equalityI)
  show "length ((set_rows (srange 0 (length g - 1) 1) (get_rows (srange 1 (length g) 1) g) g)
           [length g - 1 := map (\<lambda>_. 0)
              (set_rows (srange 0 (length g - 1) 1) (get_rows (srange 1 (length g) 1) g) g ! (length g - 1))])
        = length (shifted_up g)" by (simp add: shifted_up_def)
next
  fix r
  assume "r < length ((set_rows (srange 0 (length g - 1) 1) (get_rows (srange 1 (length g) 1) g) g)
           [length g - 1 := map (\<lambda>_. 0)
              (set_rows (srange 0 (length g - 1) 1) (get_rows (srange 1 (length g) 1) g) g ! (length g - 1))])"
  then have r: "r < length g" by simp
  show "(set_rows (srange 0 (length g - 1) 1) (get_rows (srange 1 (length g) 1) g) g)
           [length g - 1 := map (\<lambda>_. 0)
              (set_rows (srange 0 (length g - 1) 1) (get_rows (srange 1 (length g) 1) g) g ! (length g - 1))] ! r
        = shifted_up g ! r"
  proof (cases "r + 1 < length g")
    case True
    with r shift_step_nth[OF r] show ?thesis by (simp add: shifted_up_def)
  next
    case False
    with r have e: "r = length g - 1" by simp
    from r have "map (\<lambda>_. 0::int) (g ! r) = replicate (length (g ! r)) 0"
      by (simp add: map_replicate_const)
    with r False e shift_step_nth[OF r] show ?thesis by (simp add: shifted_up_def)
  qed
qed

lemma length_odd_rows_duplicated [simp]: "length (odd_rows_duplicated g) = length g"
  by (simp add: odd_rows_duplicated_def)

lemma deinterlaceOdd_Inr:
  assumes "samples img \<noteq> []"
  shows "deinterlaceOdd img = Inr (img\<lparr>samples := shifted_up (odd_rows_duplicated (samples img))\<rparr>)"
proof -
  let ?g = "samples img"
  let ?d = "odd_rows_duplicated ?g"
  have d: "?d \<noteq> []" using assms by (simp add: odd_rows_duplicated_def)
  from shifted_up_eq[OF d] assms show ?thesis
    unfolding deinterlaceOdd_def Let_def odd_rows_duplicated_eq by simp
qed

lemma shifted_dup_nth:
  assumes "rectangular g" "r < length g"
  shows "shifted_up (odd_rows_duplicated g) ! r =
     (if r = length g - 1 then replicate (snd (shape g)) 0
      else if even r then g ! r else g ! (r + 1))"
proof (cases "r = length g - 1")
  case True
  with assms have "length (odd_rows_duplicated g ! r) = snd (shape g)"
    by (simp add: odd_rows_duplicated_def rectangular_nth)
  moreover from True assms have "\<not> r + 1 < length g" by simp
  ultimately show ?thesis using True assms by (simp add: shifted_up_def)
next
  case False
  with assms have "r + 1 < length g" by simp
  with False assms show ?thesis by (simp add: shifted_up_def odd_rows_duplicated_def)
qed

lemma in_range_0: "in_range dt 0"
  by (cases dt) (simp_all add: in_range_def iinfo_min_def iinfo_max_def)

lemma rows_from:
  assumes "rectangular g" "list_all (list_all (in_range dt)) g" "g \<noteq> []" "length h = length g"
    and "\<forall>r<length g. h ! r \<in> set g \<or> h ! r = replicate (snd (shape g)) 0"
  shows "rectangular h \<and> shape h = shape g \<and> list_all (list_all (in_range dt)) h"
proof -
  have len: "length (h ! r) = snd (shape g)" if "r < length g" for r
    using that assms(1,5) by (auto simp: rectangular_def list_all_iff)
  have "rectangular h \<and> shape h = (length h, snd (shape g))"
    using assms(3,4) len by (intro rectangularI) auto
  moreover have "list_all (in_range dt) (h ! r)" if "r < length g" for r
    using that assms(2,5) by (auto simp: list_all_iff in_range_0)
  ultimately show ?thesis
    using assms(4) by (simp add: list_all_length prod_eq_iff)
qed

text \<open>
  Claim C3. \<^verbatim>\<open>deinterlaceEven\<close> returns an image of the same storage type and row count in
  which every even row that has a following row holds the input's following (odd) row, and
  every other row (every odd row, and a last row of even index) is the input's row: no row
  moves, and nothing else changes.
\<close>

theorem deinterlaceEven_rows:
  "dtype (deinterlaceEven img) = dtype img \<and>
   length (samples (deinterlaceEven img)) = length (samples img) \<and>
   (\<forall>r < length (samples img).
      samples (deinterlaceEven img) ! r =
        (if even r \<and> r + 1 < length (samples img) then samples img ! (r + 1) else samples img ! r))"
  using deinterlaceEven_nth[of _ img] by simp

text \<open>
  Claim C2, for an image with at least one row. \<^verbatim>\<open>deinterlaceOdd\<close> returns the image whose
  rows are those of the specification's two steps (odd rows replaced by the row before them,
  then the frame moved up by one row with a last row of zeros); row by row, the output holds
  the input's row \<open>r\<close> at an even \<open>r < n - 1\<close>, the input's row \<open>r + 1\<close> at an odd
  \<open>r < n - 1\<close>, and zeros at \<open>r = n - 1\<close>.
\<close>

theorem deinterlaceOdd_rows:
  assumes "samples img \<noteq> []" and "rectangular (samples img)"
  shows "deinterlaceOdd img = Inr (img\<lparr>samples := shifted_up (odd_rows_duplicated (samples img))\<rparr>) \<and>
         length (shifted_up (odd_rows_duplicated (samples img))) = length (samples img) \<and>
         (\<forall>r < length (samples img).
            shifted_up (odd_rows_duplicated (samples img)) ! r =
              (if r = length (samples img) - 1 then replicate (snd (shape (samples img))) 0
               else if even r then samples img ! r else samples img ! (r + 1)))"
  using deinterlaceOdd_Inr[OF assms(1)] shifted_dup_nth[OF assms(2)]
  by (simp add: shifted_up_def)

lemma deinterlace_fields_typed:
  assumes "well_typed img" "samples img \<noteq> []"
  shows "well_typed (img\<lparr>samples := shifted_up (odd_rows_duplicated (samples img))\<rparr>)"
    and "well_typed (deinterlaceEven img)"
    and "shape (shifted_up (odd_rows_duplicated (samples img))) = shape (samples (deinterlaceEven img))"
proof -
  let ?g = "samples img"
  let ?S = "shifted_up (odd_rows_duplicated ?g)"
  let ?E = "samples (deinterlaceEven img)"
  from assms have rg: "rectangular ?g" and tg: "list_all (list_all (in_range (dtype img))) ?g"
    by (simp_all add: well_typed_def)
  have "\<forall>r<length ?g. ?S ! r \<in> set ?g \<or> ?S ! r = replicate (snd (shape ?g)) 0"
    using shifted_dup_nth[OF rg] by auto
  then have S: "rectangular ?S \<and> shape ?S = shape ?g \<and> list_all (list_all (in_range (dtype img))) ?S"
    using rg tg assms(2) by (intro rows_from) (simp_all add: shifted_up_def)
  have "\<forall>r<length ?g. ?E ! r \<in> set ?g \<or> ?E ! r = replicate (snd (shape ?g)) 0"
    using deinterlaceEven_nth[of _ img] by auto
  then have E: "rectangular ?E \<and> shape ?E = shape ?g \<and> list_all (list_all (in_range (dtype img))) ?E"
    using rg tg assms(2) by (intro rows_from) simp_all
  from S show "well_typed (img\<lparr>samples := ?S\<rparr>)" by (simp add: well_typed_def)
  from E show "well_typed (deinterlaceEven img)" by (simp add: well_typed_def)
  from S E show "shape ?S = shape ?E" by simp
qed

text \<open>
  Claim C1. For an image of 8-bit unsigned samples and every position \<open>(r, c)\<close> of it,
  \<^verbatim>\<open>deinterlaceBlend\<close> returns an 8-bit image whose sample at \<open>(r, c)\<close> is the greater of
  the samples of \<^verbatim>\<open>deinterlaceOdd\<close> and \<^verbatim>\<open>deinterlaceEven\<close> at that position.
\<close>

theorem deinterlaceBlend_max:
  assumes "dtype img = UInt8" and "well_typed img"
    and "r < length (samples img)" and "c < length (samples img ! r)"
  shows "\<exists>odd blend. deinterlaceOdd img = Inr odd \<and> deinterlaceBlend img = Inr blend \<and>
           dtype blend = UInt8 \<and>
           samples blend ! r ! c = max (samples odd ! r ! c) (samples (deinterlaceEven img) ! r ! c)"
proof -
  let ?g = "samples img"
  let ?S = "shifted_up (odd_rows_duplicated ?g)"
  let ?odd = "img\<lparr>samples := ?S\<rparr>"
  let ?E = "samples (deinterlaceEven img)"
  from assms(3) have ne: "?g \<noteq> []" by auto
  from assms(2) have rg: "rectangular ?g" by (simp add: well_typed_def)
  have odd: "deinterlaceOdd img = Inr ?odd" by (rule deinterlaceOdd_Inr[OF ne])
  note ty = deinterlace_fields_typed[OF assms(2) ne]
  have "blendLighten ?odd (deinterlaceEven img)
        = Inr \<lparr>dtype = UInt8, samples = map2 (map2 max) (samples ?odd) ?E\<rparr>"
    using assms(1) ty by (intro blendLighten_uint8) simp_all
  then have blend: "deinterlaceBlend img = Inr \<lparr>dtype = UInt8, samples = map2 (map2 max) ?S ?E\<rparr>"
    by (simp add: deinterlaceBlend_def odd)
  have lS: "length ?S = length ?g" by (simp add: shifted_up_def)
  from ty(1) have rS: "rectangular ?S" by (simp add: well_typed_def)
  from ty(2) have rE: "rectangular ?E" by (simp add: well_typed_def)
  have sS: "shape ?S = shape ?g"
    using ty(3) rows_from[of ?g "dtype img" ?E] deinterlaceEven_nth[of _ img] assms(2) ne
    by (auto simp: well_typed_def)
  from assms(3,4) rg have c: "c < snd (shape ?g)" by (simp add: rectangular_nth)
  from assms(3) lS rS sS c have cS: "c < length (?S ! r)" by (simp add: rectangular_nth)
  from assms(3) rE ty(3) sS c have cE: "c < length (?E ! r)" by (simp add: rectangular_nth)
  from assms(3) lS cS cE have "map2 (map2 max) ?S ?E ! r ! c = max (?S ! r ! c) (?E ! r ! c)"
    by simp
  with odd blend show ?thesis by simp
qed

lemma frame3_typed: "well_typed frame3"
  by (simp add: frame3_def well_typed_def rectangular_def shape_def in_range_UInt8)

subsection \<open>The deinterlacer on a frame of three rows\<close>

theorem deinterlaceEven_rows_witness:
  "length (samples (deinterlaceEven frame3)) = 3 \<and>
   samples (deinterlaceEven frame3) ! 0 = [30, 40] \<and>
   samples (deinterlaceEven frame3) ! 1 = [30, 40] \<and>
   samples (deinterlaceEven frame3) ! 2 = [50, 60]"
proof -
  have n: "length (samples frame3) = 3" by (simp add: frame3_def)
  note t = deinterlaceEven_rows[of frame3, unfolded n]
  from t have r: "\<And>r. r < 3 \<Longrightarrow> samples (deinterlaceEven frame3) ! r =
        (if even r \<and> r + 1 < 3 then samples frame3 ! (r + 1) else samples frame3 ! r)" by blast
  from t r[of 0] r[of 1] r[of 2] show ?thesis by (simp add: frame3_def)
qed

theorem deinterlaceOdd_rows_witness:
  "samples frame3 \<noteq> [] \<and> rectangular (samples frame3) \<and>
   deinterlaceOdd frame3 = Inr \<lparr>dtype = UInt8, samples = [[10, 200], [50, 60], [0, 0]]\<rparr>"
proof -
  have h: "samples frame3 \<noteq> []" "rectangular (samples frame3)"
    by (simp_all add: frame3_def rectangular_def shape_def)
  have n: "length (samples frame3) = 3" by (simp add: frame3_def)
  note t = deinterlaceOdd_rows[OF h, unfolded n]
  let ?S = "shifted_up (odd_rows_duplicated (samples frame3))"
  from t have r: "\<And>r. r < 3 \<Longrightarrow> ?S ! r =
        (if r = 3 - 1 then replicate (snd (shape (samples frame3))) 0
         else if even r then samples frame3 ! r else samples frame3 ! (r + 1))" by blast
  from t have l: "length ?S = 3" by blast
  have "?S = [[10, 200], [50, 60], [0, 0]]"
    using l r[of 0] r[of 1] r[of 2]
    by (intro nth_equalityI) (auto simp: frame3_def shape_def less_Suc_eq numeral_3_eq_3 numeral_2_eq_2)
  with t h show ?thesis by (simp add: frame3_def)
qed

text \<open>
  Claim C2 as stated, for every image: on an image with no rows \<^verbatim>\<open>deinterlaceOdd\<close> returns
  no image; the assignment to row \<^verbatim>\<open>-1\<close> raises \<^verbatim>\<open>IndexError\<close>.
\<close>

theorem deinterlaceOdd_empty_counterexample:
  "deinterlaceOdd \<lparr>dtype = UInt8, samples = []\<rparr> = Inl IndexError"
  by (simp add: deinterlaceOdd_def)

theorem deinterlaceBlend_max_witness:
  "dtype frame3 = UInt8 \<and> well_typed frame3 \<and> 0 < length (samples frame3) \<and>
   1 < length (samples frame3 ! 0) \<and>
   (\<exists>odd blend. deinterlaceOdd frame3 = Inr odd \<and> deinterlaceBlend frame3 = Inr blend \<and>
      samples odd ! 0 ! 1 = 200 \<and> samples (deinterlaceEven frame3) ! 0 ! 1 = 40 \<and>
      samples blend ! 0 ! 1 = 200)"
proof -
  have h: "dtype frame3 = UInt8" "0 < length (samples frame3)" "1 < length (samples frame3 ! 0)"
    by (simp_all add: frame3_def)
  from deinterlaceBlend_max[OF h(1) frame3_typed h(2,3)]
  obtain odd blend where ob: "deinterlaceOdd frame3 = Inr odd" "deinterlaceBlend frame3 = Inr blend"
    "samples blend ! 0 ! 1 = max (samples odd ! 0 ! 1) (samples (deinterlaceEven frame3) ! 0 ! 1)"
    by blast
  have e: "samples (deinterlaceEven frame3) = [[30, 40], [30, 40], [50, 60]]"
    by (simp add: deinterlaceEven_def frame3_def srange_def get_rows_def set_rows_def)
  have "deinterlaceOdd frame3 = Inr \<lparr>dtype = UInt8, samples = [[10, 200], [50, 60], [0, 0]]\<rparr>"
    by (simp add: deinterlaceOdd_def frame3_def srange_def get_rows_def set_rows_def)
  with ob(1) have o: "samples odd = [[10, 200], [50, 60], [0, 0]]" by auto
  from ob o e h frame3_typed show ?thesis by simp
qed

subsection \<open>The lighten blend and the storage types\<close>

lemma diff_row:
  "list_all2 (\<lambda>x y. in_range UInt8 x \<and> in_range UInt8 y) r s \<Longrightarrow>
   map2 (\<lambda>x y. wrap Int16 (x - y)) (map (wrap Int16) r) s = map2 (-) r s"
proof (induction rule: list_all2_induct)
  case Nil
  show ?case by simp
next
  case (Cons x r y s)
  from Cons.hyps(1) have "wrap Int16 x = x" "wrap Int16 (x - y) = x - y"
    by (auto intro!: wrap_in_range simp: in_range_UInt8 in_range_Int16)
  with Cons.IH show ?case by simp
qed

lemma diff_grid:
  "list_all2 (list_all2 (\<lambda>x y. in_range UInt8 x \<and> in_range UInt8 y)) g h \<Longrightarrow>
   map2 (map2 (\<lambda>x y. wrap Int16 (x - y))) (map (map (wrap Int16)) g) h = map2 (map2 (-)) g h"
proof (induction rule: list_all2_induct)
  case Nil
  show ?case by simp
next
  case (Cons r g s h)
  from diff_row[OF Cons.hyps(1)] Cons.IH show ?case by simp
qed

text \<open>
  Claim C8, for 8-bit unsigned arrays of one shape. The \<^verbatim>\<open>int16\<close> intermediate holds the exact
  differences of the samples (nothing wraps), and the result is the elementwise maximum as
  an array of the storage type \<^verbatim>\<open>uint8\<close> with every sample in its range.
\<close>

theorem blendLighten_uint8_exact:
  assumes "dtype a = UInt8" and "dtype b = UInt8" and "well_typed a" and "well_typed b"
    and "shape (samples a) = shape (samples b)"
  shows "subtract (astype Int16 a) b =
           Inr \<lparr>dtype = Int16, samples = map2 (map2 (-)) (samples a) (samples b)\<rparr> \<and>
         blendLighten a b =
           Inr \<lparr>dtype = UInt8, samples = map2 (map2 max) (samples a) (samples b)\<rparr> \<and>
         well_typed \<lparr>dtype = UInt8, samples = map2 (map2 max) (samples a) (samples b)\<rparr>"
proof -
  let ?g = "samples a" and ?h = "samples b"
  from assms have rg: "rectangular ?g" and rh: "rectangular ?h"
    and tg: "list_all (list_all (in_range UInt8)) ?g" and th: "list_all (list_all (in_range UInt8)) ?h"
    by (simp_all add: well_typed_def)
  have a2: "list_all2 (list_all2 (\<lambda>x y. in_range UInt8 x \<and> in_range UInt8 y)) ?g ?h"
    using rg rh assms(5) tg th by (rule grids_all2)
  have "subtract (astype Int16 a) b
        = Inr \<lparr>dtype = Int16, samples = map2 (map2 (\<lambda>x y. wrap Int16 (x - y))) (map (map (wrap Int16)) ?g) ?h\<rparr>"
    using rg rh assms(2,5) by (simp add: subtract_def astype_def result_type_def elementwise_same)
  then have s: "subtract (astype Int16 a) b = Inr \<lparr>dtype = Int16, samples = map2 (map2 (-)) ?g ?h\<rparr>"
    by (simp only: diff_grid[OF a2])
  have m: "rectangular (map2 (map2 max) ?g ?h)"
    using shape_map2[OF rg rh assms(5)] by blast
  from assms(5) have l: "length ?h = length ?g" by (metis shape_length)
  have "list_all (list_all (in_range UInt8)) (map2 (map2 max) ?g ?h)"
    using a2 l by (auto simp: list_all_length list_all2_conv_all_nth max_def)
  with m have "well_typed \<lparr>dtype = UInt8, samples = map2 (map2 max) ?g ?h\<rparr>"
    by (simp add: well_typed_def)
  with s blendLighten_uint8[OF assms] show ?thesis by simp
qed

text \<open>
  Claim C8 as stated, for any unsigned storage type: two 16-bit arrays holding 300 and 5
  blend to an 8-bit array holding 44. The result is cast to \<^verbatim>\<open>uint8\<close>, not to the storage type
  of the inputs, and 300 does not survive the cast.
\<close>

theorem blendLighten_uint16_counterexample:
  "well_typed wide_a \<and> well_typed wide_b \<and>
   blendLighten wide_a wide_b = Inr \<lparr>dtype = UInt8, samples = [[44]]\<rparr>"
  by (simp add: wide_a_def wide_b_def well_typed_def rectangular_def shape_def in_range_def
      iinfo_min_def iinfo_max_def blendLighten_def subtract_def astype_def result_type_def
      elementwise_def bdim_def broadcast_to_def stretch_def wrap_def)

theorem blendLighten_uint8_exact_witness:
  "dtype tile_a = UInt8 \<and> dtype tile_b = UInt8 \<and> well_typed tile_a \<and> well_typed tile_b \<and>
   shape (samples tile_a) = shape (samples tile_b) \<and>
   subtract (astype Int16 tile_a) tile_b = Inr \<lparr>dtype = Int16, samples = [[- 255, 255], [- 1, 0]]\<rparr> \<and>
   blendLighten tile_a tile_b = Inr \<lparr>dtype = UInt8, samples = [[255, 255], [8, 9]]\<rparr>"
proof -
  have h: "dtype tile_a = UInt8" "dtype tile_b = UInt8" "well_typed tile_a" "well_typed tile_b"
    "shape (samples tile_a) = shape (samples tile_b)"
    by (simp_all add: tile_a_def tile_b_def well_typed_def rectangular_def shape_def in_range_UInt8)
  from blendLighten_uint8_exact[OF h] h show ?thesis
    by (simp add: tile_a_def tile_b_def)
qed


section \<open>Properties of the float routines\<close>

subsection \<open>Gamma correction\<close>







subsection \<open>Clipping and the cast to an integer type\<close>

lemma trunc_between:
  assumes "of_int a \<le> r" and "r \<le> of_int b"
  shows "a \<le> trunc r \<and> trunc r \<le> b"
proof (cases "r \<ge> 0")
  case True
  from assms(1) have "a \<le> \<lfloor>r\<rfloor>" by (simp add: le_floor_iff)
  moreover have "of_int \<lfloor>r\<rfloor> \<le> r" by simp
  with assms(2) have "\<lfloor>r\<rfloor> \<le> b" by linarith
  ultimately show ?thesis using True by (simp add: trunc_def)
next
  case False
  from assms(2) have "\<lceil>r\<rceil> \<le> b" by (simp add: ceiling_le_iff)
  moreover have "r \<le> of_int \<lceil>r\<rceil>" by simp
  with assms(1) have "a \<le> \<lceil>r\<rceil>" by linarith
  ultimately show ?thesis using False by (simp add: trunc_def)
qed

lemma trunc_of_int [simp]: "trunc (of_int v) = v"
  by (simp add: trunc_def)


lemma iinfo_order: "iinfo_min dt \<le> 0 \<and> 0 < iinfo_max dt"
  by (cases dt) (simp_all add: iinfo_min_def iinfo_max_def)

lemma clip_cases:
  assumes "lo \<le> hi"
  shows "clip x lo hi = NaN \<or> (\<exists>r. clip x lo hi = Fin r \<and> lo \<le> r \<and> r \<le> hi)"
  using assms by (cases x) auto


lemma brightness_contrast_clipped_elems:
  "list_all (list_all (\<lambda>v. \<exists>r. v = Fin r \<and> 0 \<le> r \<and> r \<le> 255))
     (brightness_contrast_clipped img brightness contrast)"
  by (simp add: brightness_contrast_clipped_def Let_def to_float_def list_all_iff fsub_def)





subsection \<open>Brightness and contrast, levels\<close>

lemma wide_max: "8 < bits dt \<Longrightarrow> 255 \<le> iinfo_max dt"
  by (cases dt) (simp_all add: iinfo_max_def)

lemma to_int_byte:
  assumes "255 \<le> iinfo_max dt" and "0 \<le> r" and "r \<le> 255"
  shows "0 \<le> to_int dt (Fin r) \<and> to_int dt (Fin r) \<le> 255"
proof -
  from assms(2,3) have t: "0 \<le> trunc r \<and> trunc r \<le> 255"
    by (intro trunc_between) simp_all
  with assms(1) iinfo_order[of dt] have "in_range dt (trunc r)"
    by (simp add: in_range_def)
  with t show ?thesis by (simp add: wrap_in_range)
qed

text \<open>
  Claim C10. For an image of a storage type wider than 8 bits (and a contrast other than
  259, where the contrast factor divides by zero), \<^verbatim>\<open>applyBrightnessAndContrast\<close> returns an
  image of the same storage type and the same row lengths in which every sample is between
  0 and 255: the clip to \<open>[0, 255]\<close> comes before the cast, whatever the bit depth.
\<close>

theorem applyBrightnessAndContrast_at_most_255:
  assumes "8 < bits (dtype img)" and "contrast \<noteq> 259"
  shows "\<exists>out. applyBrightnessAndContrast img brightness contrast = Inr out \<and>
           dtype out = dtype img \<and>
           map length (samples out) = map length (samples img) \<and>
           list_all (list_all (\<lambda>v. 0 \<le> v \<and> v \<le> 255)) (samples out)"
proof -
  let ?c = "brightness_contrast_clipped img brightness contrast"
  let ?out = "\<lparr>dtype = dtype img, samples = map (map (to_int (dtype img))) ?c\<rparr>"
  from assms(2) have r: "applyBrightnessAndContrast img brightness contrast = Inr ?out"
    by (simp add: applyBrightnessAndContrast_def Let_def)
  have l: "map length (samples ?out) = map length (samples img)"
    by (simp add: brightness_contrast_clipped_def Let_def to_float_def comp_def)
  from wide_max[OF assms(1)]
  have "\<And>v. \<exists>r. v = Fin r \<and> 0 \<le> r \<and> r \<le> 255 \<Longrightarrow>
          0 \<le> to_int (dtype img) v \<and> to_int (dtype img) v \<le> 255"
    using to_int_byte[of "dtype img"] by blast
  with brightness_contrast_clipped_elems[of img brightness contrast]
  have "list_all (list_all (\<lambda>v. 0 \<le> v \<and> v \<le> 255)) (samples ?out)"
    by (simp add: list_all_iff)
  with r l show ?thesis by (intro exI[of _ ?out]) simp
qed

theorem applyBrightnessAndContrast_at_most_255_witness:
  "8 < bits (dtype deep_frame) \<and> (0::real) \<noteq> 259 \<and>
   applyBrightnessAndContrast deep_frame 0 0 = Inr \<lparr>dtype = UInt16, samples = [[255, 100]]\<rparr>"
proof -
  have h: "8 < bits (dtype deep_frame)" "(0::real) \<noteq> 259" by (simp_all add: deep_frame_def)
  from applyBrightnessAndContrast_at_most_255[OF h, of 0]
  have "\<exists>out. applyBrightnessAndContrast deep_frame 0 0 = Inr out" by blast
  moreover have "applyBrightnessAndContrast deep_frame 0 0
      = Inr \<lparr>dtype = UInt16, samples = [[255, 100]]\<rparr>"
    by (simp add: applyBrightnessAndContrast_def brightness_contrast_clipped_def contrast_factor_def
        to_float_def fsub_def deep_frame_def trunc_def wrap_def)
  ultimately show ?thesis using h by simp
qed




subsection \<open>Flat field\<close>

lemma median_nonneg:
  assumes "\<forall>x\<in>set xs. 0 \<le> x" and "xs \<noteq> []"
  shows "\<exists>m. median xs = Fin m \<and> 0 \<le> m"
proof -
  let ?s = "sort xs"
  let ?n = "length xs"
  from assms(2) have n: "0 < ?n" by simp
  have nn: "0 \<le> ?s ! k" if "k < ?n" for k
  proof -
    from that have "?s ! k \<in> set ?s" by (metis nth_mem length_sort)
    with assms(1) show ?thesis by simp
  qed
  show ?thesis
  proof (cases "odd ?n")
    case True
    with n nn[of "?n div 2"] show ?thesis by (simp add: median_def Let_def)
  next
    case False
    from n have "?n div 2 < ?n" by simp
    then have "?n div 2 - 1 < ?n" "?n div 2 < ?n" by arith+
    with nn have "0 \<le> ?s ! (?n div 2 - 1)" "0 \<le> ?s ! (?n div 2)" by blast+
    then have "0 \<le> (?s ! (?n div 2 - 1) + ?s ! (?n div 2)) / 2" by simp
    moreover from False n
    have "median xs = Fin ((?s ! (?n div 2 - 1) + ?s ! (?n div 2)) / 2)"
      by (simp add: median_def Let_def)
    ultimately show ?thesis by blast
  qed
qed

lemma median_Nil [simp]: "median [] = NaN"
  by (simp add: median_def)

text \<open>
  Claim C4. For a reference image of non-negative samples, \<^verbatim>\<open>loadFlat\<close> stores the median of
  the image as \<open>flat_avg\<close>, replaces every element strictly below \<open>flat_avg / 2\<close> by
  \<open>flat_avg\<close> and keeps the others, and the structure it returns satisfies the invariant:
  no element of \<open>flat_img\<close> is below \<open>flat_avg / 2\<close>. (\<^verbatim>\<open>applyFlat\<close>, the only routine that
  takes the structure, is a function of it and returns an image: it writes to no field.)
\<close>

theorem loadFlat_invariant:
  assumes "list_all (list_all (\<lambda>v. 0 \<le> v)) (samples decoded)"
  shows "flat_avg (loadFlat decoded) = median (concat (map (map real_of_int) (samples decoded))) \<and>
         flat_img (loadFlat decoded) =
           map (map (\<lambda>v. if flt (Fin (real_of_int v)) (fdiv (flat_avg (loadFlat decoded)) (Fin 2))
                          then flat_avg (loadFlat decoded) else Fin (real_of_int v)))
             (samples decoded) \<and>
         flat_invariant (loadFlat decoded)"
proof -
  let ?xs = "concat (map (map real_of_int) (samples decoded))"
  let ?avg = "median ?xs"
  have avg: "flat_avg (loadFlat decoded) = ?avg" by (simp add: loadFlat_def Let_def)
  have img: "flat_img (loadFlat decoded) =
      map (map (\<lambda>v. if flt (Fin (real_of_int v)) (fdiv ?avg (Fin 2)) then ?avg else Fin (real_of_int v)))
        (samples decoded)"
    by (simp add: loadFlat_def Let_def comp_def)
  from assms have "\<forall>x\<in>set ?xs. 0 \<le> x" by (auto simp: list_all_iff)
  with median_nonneg[of ?xs] have "?avg = NaN \<or> (\<exists>m. ?avg = Fin m \<and> 0 \<le> m)"
    by (cases "?xs = []") (simp_all del: concat_eq_Nil_conv)
  then have "\<not> flt ?avg (fdiv ?avg (Fin 2))"
    by auto
  then have "flat_invariant (loadFlat decoded)"
    unfolding flat_invariant_def avg img by (auto simp: list_all_iff)
  with avg img show ?thesis by simp
qed

lemma sort_flat_frame:
  "sort [100, 100, 100, 100, 100, 10, 100, 100, 100, 100, 100, 100, 100, 100, 100, 100 :: real]
   = [10, 100, 100, 100, 100, 100, 100, 100, 100, 100, 100, 100, 100, 100, 100, 100]"
  by simp

lemma loadFlat_flat_frame:
  "loadFlat flat_frame = \<lparr>flat_img =
     [[Fin 100, Fin 100, Fin 100, Fin 100], [Fin 100, Fin 100, Fin 100, Fin 100],
      [Fin 100, Fin 100, Fin 100, Fin 100], [Fin 100, Fin 100, Fin 100, Fin 100]],
     flat_avg = Fin 100\<rparr>"
proof -
  have "median (concat (map (map real_of_int) (samples flat_frame))) = Fin 100"
    by (simp add: flat_frame_def median_def Let_def del: sort_key_simps)
       (simp add: sort_flat_frame del: sort_key_simps)
  then show ?thesis by (simp add: loadFlat_def Let_def) (simp add: flat_frame_def)
qed

theorem loadFlat_invariant_witness:
  "list_all (list_all (\<lambda>v. 0 \<le> v)) (samples flat_frame) \<and>
   flat_avg (loadFlat flat_frame) = Fin 100 \<and>
   flat_img (loadFlat flat_frame) ! 1 ! 1 = Fin 100 \<and>
   flat_invariant (loadFlat flat_frame)"
proof -
  have h: "list_all (list_all (\<lambda>v. 0 \<le> v)) (samples flat_frame)"
    by (simp add: flat_frame_def)
  from loadFlat_invariant[OF h] have "flat_invariant (loadFlat flat_frame)" by blast
  with h show ?thesis by (simp add: loadFlat_flat_frame)
qed







text \<open>
  Claim C6. When the shape of the target differs from the shape of \<open>flat_img\<close>,
  \<^verbatim>\<open>applyFlat\<close> returns the target as it is: no error, and (being a function of its
  arguments) no change to the flat field.
\<close>

theorem applyFlat_shape_mismatch:
  assumes "shape (samples img) \<noteq> shape (flat_img fs)"
  shows "applyFlat img fs = img"
  using assms by (simp add: applyFlat_def)

theorem applyFlat_shape_mismatch_witness:
  "shape (samples two_pixels) \<noteq> shape (flat_img half_flat) \<and>
   applyFlat two_pixels half_flat = two_pixels"
proof -
  have h: "shape (samples two_pixels) \<noteq> shape (flat_img half_flat)"
    by (simp add: two_pixels_def half_flat_def shape_def)
  from applyFlat_shape_mismatch[OF h] h show ?thesis by simp
qed


end
